theory Spec2Isabelle
  imports Complex_Main "HOL-Library.Signed_Division"
begin

section \<open>Data model\<close>

text \<open>
  The adaptive quiz engine of KeyQuest (\<^verbatim>\<open>adaptivequiz.cpp\<close>, \<^verbatim>\<open>state.h\<close>,
  \<^verbatim>\<open>question.h\<close>). A C++ \<^verbatim>\<open>int\<close> is modelled by \<open>int\<close>: signed overflow is
  undefined behaviour in C++ and would take a skill level or a difficulty next to the
  limits of \<^verbatim>\<open>int\<close>, or more than two billion calls; it is outside the model.
\<close>

text \<open>\<^verbatim>\<open>struct State\<close> of \<^verbatim>\<open>state.h\<close>: three plain integers, not validated anywhere.\<close>

record State =
  "notes" :: int
  chords :: int
  scales :: int

text \<open>\<^verbatim>\<open>class Question\<close> of \<^verbatim>\<open>question.h\<close>, its private members in declaration order.\<close>

record Question =
  questionID :: int
  topicID :: int
  description :: string
  expectedInput :: string
  title :: string
  difficulty :: int
  topicName :: string

text \<open>
  \<^verbatim>\<open>Question() = default\<close>: the value-initialised question that \<^verbatim>\<open>std::map::operator[]\<close>
  inserts for a missing key and that \<^verbatim>\<open>getQuestion\<close> returns for an unknown id
  (integers zero, strings empty).
\<close>

definition Question_default :: Question where
  "Question_default =
     \<lparr>questionID = 0, topicID = 0, description = [], expectedInput = [], title = [],
      difficulty = 0, topicName = []\<rparr>"

subsection \<open>Ordered maps with integer keys\<close>

text \<open>
  A \<^verbatim>\<open>std::map<int, V>\<close> is the list of its entries in iteration order, that is in
  strictly ascending key order (\<open>ordered_map\<close>). \<open>map_of m k\<close> is \<^verbatim>\<open>m.find(k)\<close>.
\<close>

definition ordered_map :: "(int \<times> 'v) list \<Rightarrow> bool" where
  "ordered_map m = sorted_wrt (<) (map fst m)"

text \<open>
  \<open>subscript k d m\<close> is the map after evaluating \<^verbatim>\<open>m[k]\<close>: a missing key is inserted at
  its place in the order with the value-initialised element \<open>d\<close>; \<open>at_key k d m\<close> is the
  value the expression \<^verbatim>\<open>m[k]\<close> then refers to.
\<close>

fun subscript :: "int \<Rightarrow> 'v \<Rightarrow> (int \<times> 'v) list \<Rightarrow> (int \<times> 'v) list" where
  "subscript k d [] = [(k, d)]"
| "subscript k d ((k', v) # m) =
     (if k < k' then (k, d) # (k', v) # m
      else if k = k' then (k', v) # m
      else (k', v) # subscript k d m)"

definition at_key :: "int \<Rightarrow> 'v \<Rightarrow> (int \<times> 'v) list \<Rightarrow> 'v" where
  "at_key k d m = (case map_of m k of Some v \<Rightarrow> v | None \<Rightarrow> d)"

text \<open>\<open>assign k x m\<close> writes \<open>x\<close> through a reference to the element stored under \<open>k\<close>.\<close>

fun assign :: "int \<Rightarrow> 'v \<Rightarrow> (int \<times> 'v) list \<Rightarrow> (int \<times> 'v) list" where
  "assign k x [] = []"
| "assign k x ((k', v) # m) = (if k = k' then (k', x) # m else (k', v) # assign k x m)"

text \<open>
  The streak counters (\<^verbatim>\<open>std::map<int, int>\<close>) are only ever subscripted, never iterated,
  so they are partial maps; \<open>count_at\<close> is the value of \<^verbatim>\<open>counts[k]\<close> (zero when the key
  is inserted by the subscript).
\<close>

definition count_at :: "(int \<rightharpoonup> int) \<Rightarrow> int \<Rightarrow> int" where
  "count_at counts k = (case counts k of Some c \<Rightarrow> c | None \<Rightarrow> 0)"

subsection \<open>The engine\<close>

text \<open>
  The data members of \<^verbatim>\<open>class AdaptiveQuiz\<close>. The Q-table
  \<^verbatim>\<open>std::map<State, std::map<int, float>>\<close> is a partial map from states (the engine never
  iterates over its rows, and \<^verbatim>\<open>State::operator<\<close> is a strict total order whose equivalence
  is equality) to rows in key order. A \<^verbatim>\<open>float\<close> is the real number it denotes; every
  floating-point operation rounds its exact result with the function \<open>fl\<close>, which the
  definitions take as a parameter, so nothing is assumed about rounding. Infinities and
  NaN are outside the model. The members \<^verbatim>\<open>lr\<close>, \<^verbatim>\<open>df\<close>, \<^verbatim>\<open>correctThreshold\<close> and
  \<^verbatim>\<open>incorrectThreshold\<close> are set by the constructor and never written again; they are
  constants here.
\<close>

record AdaptiveQuiz =
  q_table :: "State \<rightharpoonup> (int \<times> real) list"
  state :: State
  questionBankByID :: "(int \<times> Question) list"
  history :: "(State \<times> int \<times> string \<times> bool) list"
  askedQuestionsThisSession :: "int set"
  correctCounts :: "int \<rightharpoonup> int"
  incorrectCounts :: "int \<rightharpoonup> int"
  score :: real
  correctAnswers :: int
  totalQuestions :: int

definition lr :: "(real \<Rightarrow> real) \<Rightarrow> real" where
  "lr fl = fl (1 / 10)"

definition df :: "(real \<Rightarrow> real) \<Rightarrow> real" where
  "df fl = fl (9 / 10)"

definition correctThreshold :: int where
  "correctThreshold = 4"

definition incorrectThreshold :: int where
  "incorrectThreshold = 4"

text \<open>The constructor (lines 31-45); the containers not named there start empty.\<close>

definition AdaptiveQuiz_new ::
  "(int \<times> Question) list \<Rightarrow> (State \<rightharpoonup> (int \<times> real) list) \<Rightarrow> State \<Rightarrow> AdaptiveQuiz" where
  "AdaptiveQuiz_new questionBank qTable initialState =
     \<lparr>q_table = qTable, state = initialState, questionBankByID = questionBank,
      history = [], askedQuestionsThisSession = {}, correctCounts = Map.empty,
      incorrectCounts = Map.empty, score = 0, correctAnswers = 0, totalQuestions = 0\<rparr>"

text \<open>\<^verbatim>\<open>getActionsForStateLevel\<close> (lines 57-75).\<close>

definition getActionsForStateLevel :: "bool \<Rightarrow> AdaptiveQuiz \<Rightarrow> int list" where
  "getActionsForStateLevel allowSlightStretch e =
     (let stretchAmount = (if allowSlightStretch then 1 else 0) in
      map fst (filter (\<lambda>(qid, q).
          (topicID q = 101 \<and> difficulty q \<le> notes (state e) + stretchAmount) \<or>
          (topicID q \<ge> 102 \<and> topicID q \<le> 103 \<and> difficulty q \<le> chords (state e) + stretchAmount) \<or>
          (topicID q \<ge> 104 \<and> difficulty q \<le> scales (state e) + stretchAmount))
        (questionBankByID e)))"

text \<open>\<^verbatim>\<open>getReward\<close> (lines 190-195); 5.0f, 2.5f and -2.5f are exact in binary.\<close>

definition getReward :: "State \<Rightarrow> State \<Rightarrow> bool \<Rightarrow> real" where
  "getReward before after correct =
     (if correct \<and> (notes after > notes before \<or> chords after > chords before \<or>
                     scales after > scales before)
      then 5
      else if correct then 5 / 2
      else - (5 / 2))"

text \<open>
  \<^verbatim>\<open>maxQValue\<close> (lines 203-210): \<^verbatim>\<open>q_table[s]\<close> is only evaluated when \<^verbatim>\<open>find\<close> has found
  the row, so the table is not changed.
\<close>

definition maxQValue :: "State \<Rightarrow> AdaptiveQuiz \<Rightarrow> real" where
  "maxQValue s e =
     (case q_table e s of
        None \<Rightarrow> 0
      | Some row \<Rightarrow> foldl (\<lambda>maxQ (_, q). if q > maxQ then q else maxQ) 0 row)"

text \<open>\<^verbatim>\<open>getQValue\<close> (lines 277-284).\<close>

definition getQValue :: "State \<Rightarrow> int \<Rightarrow> AdaptiveQuiz \<Rightarrow> real" where
  "getQValue s qid e =
     (case q_table e s of
        None \<Rightarrow> 0
      | Some row \<Rightarrow> (case map_of row qid of Some q \<Rightarrow> q | None \<Rightarrow> 0))"

text \<open>\<^verbatim>\<open>getQTable\<close> (lines 291-293) returns a copy of the table.\<close>

definition getQTable :: "AdaptiveQuiz \<Rightarrow> (State \<rightharpoonup> (int \<times> real) list)" where
  "getQTable e = q_table e"

text \<open>
  \<^verbatim>\<open>q_table[s]\<close>: the row of \<open>s\<close>, an empty row when the subscript has to insert one.
\<close>

definition row_at :: "(State \<rightharpoonup> (int \<times> real) list) \<Rightarrow> State \<Rightarrow> (int \<times> real) list" where
  "row_at qt s = (case qt s of Some row \<Rightarrow> row | None \<Rightarrow> [])"

text \<open>
  \<^verbatim>\<open>updateState\<close> (lines 220-254). The state is passed by reference and mutated; the
  model returns it together with the engine, whose question bank (two subscripts, lines
  221-222) and streak counters change. \<open>promote\<close> and \<open>demote\<close> are the three
  conditional increments (lines 237-239) and decrements (lines 248-250), in order.
\<close>

definition promote :: "int \<Rightarrow> State \<Rightarrow> State" where
  "promote topic s =
     (let s1 = (if topic = 101 \<and> notes s < 2 then s\<lparr>notes := notes s + 1\<rparr> else s);
          s2 = (if topic \<ge> 102 \<and> topic \<le> 103 \<and> chords s1 < 2
                then s1\<lparr>chords := chords s1 + 1\<rparr> else s1)
      in if topic \<ge> 104 \<and> scales s2 < 2 then s2\<lparr>scales := scales s2 + 1\<rparr> else s2)"

definition demote :: "int \<Rightarrow> State \<Rightarrow> State" where
  "demote topic s =
     (let s1 = (if topic = 101 \<and> notes s > 0 then s\<lparr>notes := notes s - 1\<rparr> else s);
          s2 = (if topic \<ge> 102 \<and> topic \<le> 103 \<and> chords s1 > 0
                then s1\<lparr>chords := chords s1 - 1\<rparr> else s1)
      in if topic \<ge> 104 \<and> scales s2 > 0 then s2\<lparr>scales := scales s2 - 1\<rparr> else s2)"

definition updateState :: "int \<Rightarrow> bool \<Rightarrow> State \<Rightarrow> AdaptiveQuiz \<Rightarrow> State \<times> AdaptiveQuiz" where
  "updateState qid correct currentState e =
     (let bank1 = subscript qid Question_default (questionBankByID e);
          diff = difficulty (at_key qid Question_default bank1);
          bank2 = subscript qid Question_default bank1;
          topic = topicID (at_key qid Question_default bank2);
          e1 = e\<lparr>questionBankByID := bank2\<rparr>;
          p1 = (if diff = 1 then 2 else 1);
          points = (if diff = 2 then 3 else p1)
      in if correct then
           (let cc = (correctCounts e1)(qid \<mapsto> count_at (correctCounts e1) qid + points);
                ic = (incorrectCounts e1)(qid \<mapsto> 0)
            in if count_at cc qid \<ge> correctThreshold
               then (promote topic currentState,
                     e1\<lparr>correctCounts := cc(qid \<mapsto> 0), incorrectCounts := ic\<rparr>)
               else (currentState, e1\<lparr>correctCounts := cc, incorrectCounts := ic\<rparr>))
         else
           (let ic = (incorrectCounts e1)(qid \<mapsto> count_at (incorrectCounts e1) qid + 1);
                cc = (correctCounts e1)(qid \<mapsto> 0)
            in if count_at ic qid \<ge> incorrectThreshold
               then (demote topic currentState,
                     e1\<lparr>correctCounts := cc, incorrectCounts := ic(qid \<mapsto> 0)\<rparr>)
               else (currentState, e1\<lparr>correctCounts := cc, incorrectCounts := ic\<rparr>)))"

text \<open>
  \<^verbatim>\<open>updateQTable\<close> (lines 264-268). The reference \<^verbatim>\<open>q\<close> is taken first, which inserts the
  row and a 0.0 entry when they are missing; \<^verbatim>\<open>maxQValue\<close> then reads the table with that
  entry in it; the assignment writes through the reference. Each arithmetic operation
  rounds with \<open>fl\<close>.
\<close>

definition updateQTable ::
  "(real \<Rightarrow> real) \<Rightarrow> State \<Rightarrow> int \<Rightarrow> real \<Rightarrow> State \<Rightarrow> AdaptiveQuiz \<Rightarrow> AdaptiveQuiz" where
  "updateQTable fl currentState qid reward nextState e =
     (let row = subscript qid 0 (row_at (q_table e) currentState);
          e1 = e\<lparr>q_table := (q_table e)(currentState \<mapsto> row)\<rparr>;
          q = at_key qid 0 row;
          nextMax = maxQValue nextState e1;
          q' = fl (q + fl (lr fl * fl (fl (reward + fl (df fl * nextMax)) - q)))
      in e1\<lparr>q_table := (q_table e1)(currentState \<mapsto> assign qid q' row)\<rparr>)"

text \<open>
  \<^verbatim>\<open>evaluateResponse\<close> (lines 350-379). The subscript of line 352 may insert into the
  question bank. The signal \<^verbatim>\<open>highlightKeys\<close> leaves the engine's members alone and is
  not modelled. \<^verbatim>\<open>updateState\<close> is called on the member \<^verbatim>\<open>state\<close> itself.
\<close>

definition evaluateResponse :: "(real \<Rightarrow> real) \<Rightarrow> int \<Rightarrow> bool \<Rightarrow> AdaptiveQuiz \<Rightarrow> AdaptiveQuiz" where
  "evaluateResponse fl qid correct e =
     (let bank = subscript qid Question_default (questionBankByID e);
          e1 = e\<lparr>questionBankByID := bank,
                 history := history e @
                   [(state e, qid, description (at_key qid Question_default bank),
                     correct)]\<rparr>;
          e2 = e1\<lparr>totalQuestions := totalQuestions e1 + 1\<rparr>;
          e3 = (if correct
                then e2\<lparr>correctAnswers := correctAnswers e2 + 1, score := fl (score e2 + 10)\<rparr>
                else (let sc = fl (score e2 - 5) in e2\<lparr>score := (if sc < 0 then 0 else sc)\<rparr>));
          stateBefore = state e3;
          (st, e4) = updateState qid correct (state e3) e3;
          e5 = e4\<lparr>state := st\<rparr>;
          reward = getReward stateBefore (state e5) correct;
          e6 = updateQTable fl stateBefore qid reward (state e5) e5
      in e6\<lparr>askedQuestionsThisSession := insert qid (askedQuestionsThisSession e6)\<rparr>)"

text \<open>A caller answering a list of questions, one \<^verbatim>\<open>evaluateResponse\<close> call each.\<close>

fun evaluateResponses :: "(real \<Rightarrow> real) \<Rightarrow> (int \<times> bool) list \<Rightarrow> AdaptiveQuiz \<Rightarrow> AdaptiveQuiz" where
  "evaluateResponses fl [] e = e"
| "evaluateResponses fl ((qid, correct) # calls) e =
     evaluateResponses fl calls (evaluateResponse fl qid correct e)"

text \<open>
  \<^verbatim>\<open>getNextAction\<close> (lines 84-155). The three values \<open>r1\<close>, \<open>r2\<close>, \<open>r3\<close> are what the
  successive calls of \<^verbatim>\<open>rand()\<close> return (non-negative), \<open>rand_max\<close> is the macro
  \<^verbatim>\<open>RAND_MAX\<close>. The integer division of line 85 truncates towards zero (\<open>sdiv\<close>).
  Dereferencing \<^verbatim>\<open>begin()\<close> of an empty map (line 115) is undefined behaviour: the fault
  \<open>Deref_end\<close>.
\<close>

datatype fault = Deref_end

definition epsilon :: "(real \<Rightarrow> real) \<Rightarrow> State \<Rightarrow> real" where
  "epsilon fl s =
     (let avgLevel = (notes s + chords s + scales s) sdiv 3 in
      if avgLevel = 0 then fl (9 / 10)
      else if avgLevel = 1 then fl (7 / 10)
      else fl (1 / 2))"

definition explore_draw :: "(real \<Rightarrow> real) \<Rightarrow> nat \<Rightarrow> nat \<Rightarrow> State \<Rightarrow> bool" where
  "explore_draw fl rand_max r1 s =
     (fl (fl (real r1) / fl (real rand_max)) < epsilon fl s)"

text \<open>The bucketing loop of lines 121-126; line 122 subscripts the question bank.\<close>

fun group_loop ::
  "int list \<Rightarrow> (int \<times> Question) list \<Rightarrow> int list \<times> int list \<times> int list \<Rightarrow>
   (int \<times> Question) list \<times> int list \<times> int list \<times> int list" where
  "group_loop [] bank (notesQ, chordsQ, scalesQ) = (bank, notesQ, chordsQ, scalesQ)"
| "group_loop (qid # rest) bank (notesQ, chordsQ, scalesQ) =
     (let bank' = subscript qid Question_default bank;
          tid = topicID (at_key qid Question_default bank')
      in if tid = 101 then group_loop rest bank' (notesQ @ [qid], chordsQ, scalesQ)
         else if tid \<ge> 101 \<and> tid \<le> 102 then group_loop rest bank' (notesQ, chordsQ @ [qid], scalesQ)
         else if tid = 104 then group_loop rest bank' (notesQ, chordsQ, scalesQ @ [qid])
         else group_loop rest bank' (notesQ, chordsQ, scalesQ))"

text \<open>
  The scan of lines 144-150; \<^verbatim>\<open>q_table[state][qid]\<close> inserts the row and a 0.0 entry
  where they are missing.
\<close>

fun exploit_loop ::
  "State \<Rightarrow> int list \<Rightarrow> (State \<rightharpoonup> (int \<times> real) list) \<Rightarrow> int \<Rightarrow> real \<Rightarrow>
   int \<times> (State \<rightharpoonup> (int \<times> real) list)" where
  "exploit_loop s [] qt bestQID bestValue = (bestQID, qt)"
| "exploit_loop s (qid # rest) qt bestQID bestValue =
     (let row = subscript qid 0 (row_at qt s);
          qt' = qt(s \<mapsto> row);
          q = at_key qid 0 row
      in if q > bestValue then exploit_loop s rest qt' qid q
         else exploit_loop s rest qt' bestQID bestValue)"

definition sentinel :: real where
  "sentinel = - 1000000000"

text \<open>
  Lines 99-113: \<open>unasked\<close> is the candidate list without the questions already asked,
  \<open>filteredCandidates\<close> the list the selection then works on (all candidates again when
  every one of them has been asked).
\<close>

definition unasked :: "bool \<Rightarrow> AdaptiveQuiz \<Rightarrow> int list" where
  "unasked explore e =
     filter (\<lambda>qid. qid \<notin> askedQuestionsThisSession e) (getActionsForStateLevel explore e)"

definition filteredCandidates :: "bool \<Rightarrow> AdaptiveQuiz \<Rightarrow> int list" where
  "filteredCandidates explore e =
     (if unasked explore e = [] then getActionsForStateLevel explore e else unasked explore e)"

definition getNextAction ::
  "(real \<Rightarrow> real) \<Rightarrow> nat \<Rightarrow> nat \<Rightarrow> nat \<Rightarrow> nat \<Rightarrow> AdaptiveQuiz \<Rightarrow> fault + (int \<times> AdaptiveQuiz)" where
  "getNextAction fl rand_max r1 r2 r3 e =
     (let explore = explore_draw fl rand_max r1 (state e);
          pool = filteredCandidates explore e;
          e1 = (if unasked explore e = [] then e\<lparr>askedQuestionsThisSession := {}\<rparr> else e)
      in if pool = [] then
           (case questionBankByID e1 of
              [] \<Rightarrow> Inl Deref_end
            | (k, _) # _ \<Rightarrow> Inr (k, e1))
         else if explore then
           (let (bank, notesQ, chordsQ, scalesQ) =
                  group_loop pool (questionBankByID e1) ([], [], []);
                e2 = e1\<lparr>questionBankByID := bank\<rparr>;
                choice = r2 mod 3;
                group = (if choice = 0 \<and> notesQ \<noteq> [] then Some notesQ
                         else if choice = 1 \<and> chordsQ \<noteq> [] then Some chordsQ
                         else if choice = 2 \<and> scalesQ \<noteq> [] then Some scalesQ
                         else None)
            in case group of
                 Some g \<Rightarrow>
                   if g \<noteq> [] then Inr (g ! (r3 mod length g), e2)
                   else Inr (pool ! (r3 mod length pool), e2)
               | None \<Rightarrow> Inr (pool ! (r3 mod length pool), e2))
         else
           (let (bestQID, qt) =
                  exploit_loop (state e1) pool (q_table e1) (hd pool) sentinel
            in Inr (bestQID, e1\<lparr>q_table := qt\<rparr>)))"

text \<open>\<^verbatim>\<open>getQuestion\<close> (lines 170-177): \<^verbatim>\<open>find\<close>, then \<^verbatim>\<open>at\<close> or the default question.\<close>

definition getQuestion :: "int \<Rightarrow> AdaptiveQuiz \<Rightarrow> Question" where
  "getQuestion qid e =
     (case map_of (questionBankByID e) qid of Some q \<Rightarrow> q | None \<Rightarrow> Question_default)"

subsection \<open>The specification's vocabulary\<close>

text \<open>
  The definitions of this subsection follow the words of the specification, not the
  code; the theorems below compare the code with them. A skill state is in range when
  each of its three levels lies in the closed interval from 0 to 2.
\<close>

definition in_range :: "State \<Rightarrow> bool" where
  "in_range s =
     (0 \<le> notes s \<and> notes s \<le> 2 \<and> 0 \<le> chords s \<and> chords s \<le> 2 \<and>
      0 \<le> scales s \<and> scales s \<le> 2)"

text \<open>
  The skill domain a topic belongs to: 101 is notes, 102 and 103 are chords, 104 and
  above are scales; a topic below 101 belongs to none.
\<close>

datatype domain = Notes | Chords | Scales

definition spec_domain :: "int \<Rightarrow> domain option" where
  "spec_domain topic =
     (if topic = 101 then Some Notes
      else if 102 \<le> topic \<and> topic \<le> 103 then Some Chords
      else if 104 \<le> topic then Some Scales
      else None)"

fun level :: "domain \<Rightarrow> State \<Rightarrow> int" where
  "level Notes s = notes s"
| "level Chords s = chords s"
| "level Scales s = scales s"

fun with_level :: "domain \<Rightarrow> int \<Rightarrow> State \<Rightarrow> State" where
  "with_level Notes n s = s\<lparr>notes := n\<rparr>"
| "with_level Chords n s = s\<lparr>chords := n\<rparr>"
| "with_level Scales n s = s\<lparr>scales := n\<rparr>"

text \<open>
  Incrementing the domain of a topic, capped at 2, and decrementing it, floored at 0:
  the level moves by one unless it has reached the bound.
\<close>

definition spec_increment :: "int \<Rightarrow> State \<Rightarrow> State" where
  "spec_increment topic s =
     (case spec_domain topic of
        None \<Rightarrow> s
      | Some d \<Rightarrow> if level d s < 2 then with_level d (level d s + 1) s else s)"

definition spec_decrement :: "int \<Rightarrow> State \<Rightarrow> State" where
  "spec_decrement topic s =
     (case spec_domain topic of
        None \<Rightarrow> s
      | Some d \<Rightarrow> if level d s > 0 then with_level d (level d s - 1) s else s)"

text \<open>
  The difficulty-weighted points of a correct answer: difficulty 0 gives 1 point,
  1 gives 2, 2 gives 3 (the code gives 1 point for any other difficulty).
\<close>

definition spec_points :: "int \<Rightarrow> int" where
  "spec_points d = (if d = 1 then 2 else if d = 2 then 3 else 1)"

subsection \<open>A small session used to run the definitions\<close>

definition example_question :: "int \<Rightarrow> int \<Rightarrow> int \<Rightarrow> Question" where
  "example_question qid topic diff =
     \<lparr>questionID = qid, topicID = topic, description = ''play'', expectedInput = ''C4'',
      title = ''q'', difficulty = diff, topicName = []\<rparr>"

definition example_bank :: "(int \<times> Question) list" where
  "example_bank =
     [(1, example_question 1 101 0), (2, example_question 2 102 1),
      (3, example_question 3 104 0), (4, example_question 4 100 0)]"

definition beginner :: State where
  "beginner = \<lparr>notes = 0, chords = 0, scales = 0\<rparr>"

definition example_quiz :: AdaptiveQuiz where
  "example_quiz = AdaptiveQuiz_new example_bank Map.empty beginner"

text \<open>The example session with two equal Q-values stored for the beginner state.\<close>

definition tied_quiz :: AdaptiveQuiz where
  "tied_quiz = example_quiz\<lparr>q_table := [beginner \<mapsto> [(1, 1 / 2), (3, 1 / 2)]]\<rparr>"

text \<open>The example session in the middle of a streak on question 2.\<close>

definition streak_quiz :: AdaptiveQuiz where
  "streak_quiz = example_quiz\<lparr>correctCounts := [2 \<mapsto> 2], incorrectCounts := [2 \<mapsto> 3]\<rparr>"

text \<open>The example session after questions 1 and 3 have been asked.\<close>

definition asked_quiz :: AdaptiveQuiz where
  "asked_quiz = example_quiz\<lparr>askedQuestionsThisSession := {1, 3}\<rparr>"

text \<open>A bank of one chord question of difficulty 1, with a beginner.\<close>

definition single_quiz :: AdaptiveQuiz where
  "single_quiz = AdaptiveQuiz_new [(2, example_question 2 102 1)] Map.empty beginner"

text \<open>The example session with a negative Q-value stored for question 1 only.\<close>

definition negative_quiz :: AdaptiveQuiz where
  "negative_quiz = example_quiz\<lparr>q_table := [beginner \<mapsto> [(1, - (1 / 4))]]\<rparr>"


section \<open>Ordered maps\<close>

lemma ordered_map_distinct: "ordered_map m \<Longrightarrow> distinct (map fst m)"
  unfolding ordered_map_def by (simp add: strict_sorted_iff)

lemma ordered_map_of: "ordered_map m \<Longrightarrow> (map_of m k = Some v) = ((k, v) \<in> set m)"
  using ordered_map_distinct [of m] by (auto dest: map_of_SomeD)

lemma ordered_map_Cons:
  "ordered_map ((k, v) # m) = ((\<forall>k' \<in> fst ` set m. k < k') \<and> ordered_map m)"
  by (auto simp: ordered_map_def)

lemma keys_subscript: "fst ` set (subscript k d m) = insert k (fst ` set m)"
  by (induction m) force+

lemma ordered_subscript: "ordered_map m \<Longrightarrow> ordered_map (subscript k d m)"
proof (induction m)
  case Nil
  then show ?case by (simp add: ordered_map_def)
next
  case (Cons a m)
  obtain k' v where a: "a = (k', v)" by (cases a)
  from Cons show ?case
    unfolding a by (auto simp: ordered_map_Cons keys_subscript)
qed

lemma map_of_above: "ordered_map ((k', v) # m) \<Longrightarrow> k \<le> k' \<Longrightarrow> map_of m k = None"
  by (force simp: ordered_map_Cons map_of_eq_None_iff)

lemma map_of_subscript:
  "ordered_map m \<Longrightarrow>
   map_of (subscript k d m) k' =
     (if k' = k \<and> map_of m k = None then Some d else map_of m k')"
proof (induction m)
  case Nil
  then show ?case by simp
next
  case (Cons a m)
  obtain j v where a: "a = (j, v)" by (cases a)
  have om: "ordered_map m" using Cons.prems by (simp add: a ordered_map_Cons)
  show ?case
  proof (cases "k < j")
    case True
    then have "map_of m k = None" using map_of_above [of j v m k] Cons.prems a by simp
    with True show ?thesis by (simp add: a)
  next
    case False
    then show ?thesis using Cons.IH [OF om] by (auto simp: a)
  qed
qed

lemma subscript_present:
  "ordered_map m \<Longrightarrow> map_of m k = Some v \<Longrightarrow> subscript k d m = m"
proof (induction m)
  case Nil
  then show ?case by simp
next
  case (Cons a m)
  obtain j w where a: "a = (j, w)" by (cases a)
  have om: "ordered_map m" using Cons.prems by (simp add: a ordered_map_Cons)
  show ?case
  proof (cases "k < j")
    case True
    then have "map_of m k = None" using map_of_above [of j w m k] Cons.prems a by simp
    with True Cons.prems show ?thesis by (simp add: a)
  next
    case False
    then show ?thesis using Cons.IH [OF om] Cons.prems by (auto simp: a)
  qed
qed

lemma at_key_subscript: "ordered_map m \<Longrightarrow> at_key k d (subscript k d m) = at_key k d m"
  by (simp add: at_key_def map_of_subscript split: option.splits)


lemma at_key_present: "map_of m k = Some v \<Longrightarrow> at_key k d m = v"
  by (simp add: at_key_def)

lemma key_present: "k \<in> fst ` set m \<Longrightarrow> \<exists>v. map_of m k = Some v"
  by (cases "map_of m k") (auto simp: map_of_eq_None_iff)

lemma subscript_idem: "ordered_map m \<Longrightarrow> subscript k d (subscript k d m) = subscript k d m"
  using subscript_present [of "subscript k d m" k _ d] ordered_subscript [of m k d]
    map_of_subscript [of m k d k]
  by (cases "map_of m k") auto

lemma set_subscript_upper: "set (subscript k d m) \<subseteq> insert (k, d) (set m)"
  by (induction m) (auto split: if_splits)

lemma set_subscript_lower: "set m \<subseteq> set (subscript k d m)"
  by (induction m) auto

lemma fold_subscript:
  "ordered_map row \<Longrightarrow>
   ordered_map (foldl (\<lambda>row k. subscript k d row) row xs) \<and>
   map_of (foldl (\<lambda>row k. subscript k d row) row xs) k =
     (if map_of row k = None \<and> k \<in> set xs then Some d else map_of row k)"
proof (induction xs arbitrary: row)
  case Nil
  then show ?case by simp
next
  case (Cons x xs)
  have o: "ordered_map (subscript x d row)" using Cons.prems by (rule ordered_subscript)
  show ?case
    using Cons.IH [OF o] by (auto simp: map_of_subscript [OF Cons.prems])
qed

lemma keys_assign: "map fst (assign k x m) = map fst m"
  by (induction m) auto

lemma ordered_assign: "ordered_map m \<Longrightarrow> ordered_map (assign k x m)"
  by (simp add: ordered_map_def keys_assign)

lemma map_of_assign:
  "map_of (assign k x m) k' = (if k' = k \<and> map_of m k \<noteq> None then Some x else map_of m k')"
  by (induction m) auto

lemma nth_mod_mem: "g \<noteq> [] \<Longrightarrow> g ! (r mod length g) \<in> set g"
  by simp

section \<open>The example sessions\<close>

lemmas example_defs = example_quiz_def AdaptiveQuiz_new_def example_bank_def
  example_question_def beginner_def

lemmas engine_defs = evaluateResponse_def updateState_def updateQTable_def getReward_def
  maxQValue_def row_at_def at_key_def count_at_def promote_def demote_def
  correctThreshold_def incorrectThreshold_def Question_default_def

lemma ordered_example_bank: "ordered_map example_bank"
  by (simp add: example_bank_def ordered_map_def)

lemma exploit_example: "\<not> explore_draw (\<lambda>x. x) 32767 32767 beginner"
  by (simp add: explore_draw_def epsilon_def beginner_def signed_divide_int_def)

section \<open>Reward\<close>

text \<open>
  Claim C4. \<open>getReward before after correct\<close> is 5.0 exactly when the answer is correct
  and at least one of the three levels of \<open>after\<close> is strictly above the corresponding
  level of \<open>before\<close>; it is 2.5 exactly when the answer is correct and no level went up;
  it is -2.5 exactly when the answer is wrong.
\<close>

theorem getReward_cases:
  "((getReward before after correct = 5) =
      (correct \<and> (notes after > notes before \<or> chords after > chords before \<or>
                   scales after > scales before))) \<and>
   ((getReward before after correct = 5 / 2) =
      (correct \<and> \<not> (notes after > notes before \<or> chords after > chords before \<or>
                     scales after > scales before))) \<and>
   ((getReward before after correct = - (5 / 2)) = (\<not> correct))"
  by (simp add: getReward_def)

section \<open>Candidate questions\<close>

lemma getActions_set:
  assumes "ordered_map (questionBankByID e)"
  shows "set (getActionsForStateLevel allowStretch e) =
           {qid. \<exists>q. map_of (questionBankByID e) qid = Some q \<and>
              ((topicID q = 101 \<and>
                  difficulty q \<le> notes (state e) + (if allowStretch then 1 else 0)) \<or>
               (102 \<le> topicID q \<and> topicID q \<le> 103 \<and>
                  difficulty q \<le> chords (state e) + (if allowStretch then 1 else 0)) \<or>
               (104 \<le> topicID q \<and>
                  difficulty q \<le> scales (state e) + (if allowStretch then 1 else 0)))}"
  unfolding getActionsForStateLevel_def Let_def ordered_map_of [OF assms]
  by (cases allowStretch) (auto simp: image_iff)

text \<open>
  Claim C5. For a question bank held in a \<^verbatim>\<open>std::map\<close> (entries in strictly ascending
  key order), every skill state and either value of \<open>allowStretch\<close>,
  \<open>getActionsForStateLevel\<close> returns exactly the ids of the bank whose question has
  topic 101 and difficulty at most \<open>notes + stretch\<close>, or a topic from 102 to 103 and
  difficulty at most \<open>chords + stretch\<close>, or a topic of at least 104 and difficulty at
  most \<open>scales + stretch\<close>, where \<open>stretch\<close> is 1 when \<open>allowStretch\<close> holds and 0
  otherwise. The id of a question whose topic is at most 100 is never returned.
\<close>

theorem getActionsForStateLevel_exact:
  assumes "ordered_map (questionBankByID e)"
  shows "set (getActionsForStateLevel allowStretch e) =
           {qid. \<exists>q. map_of (questionBankByID e) qid = Some q \<and>
              ((topicID q = 101 \<and>
                  difficulty q \<le> notes (state e) + (if allowStretch then 1 else 0)) \<or>
               (102 \<le> topicID q \<and> topicID q \<le> 103 \<and>
                  difficulty q \<le> chords (state e) + (if allowStretch then 1 else 0)) \<or>
               (104 \<le> topicID q \<and>
                  difficulty q \<le> scales (state e) + (if allowStretch then 1 else 0)))} \<and>
         (\<forall>qid q. map_of (questionBankByID e) qid = Some q \<and> topicID q \<le> 100 \<longrightarrow>
            qid \<notin> set (getActionsForStateLevel allowStretch e))"
proof (rule conjI)
  show "\<forall>qid q. map_of (questionBankByID e) qid = Some q \<and> topicID q \<le> 100 \<longrightarrow>
            qid \<notin> set (getActionsForStateLevel allowStretch e)"
    unfolding getActions_set [OF assms] by auto
qed (rule getActions_set [OF assms])

text \<open>
  The example bank with a beginner and no stretch: question 1 (notes, difficulty 0) and
  question 3 (scales, difficulty 0) qualify, question 2 (chords, difficulty 1) is too
  hard, question 4 has topic 100.
\<close>

theorem getActionsForStateLevel_exact_witness:
  "ordered_map (questionBankByID example_quiz) \<and>
   map_of (questionBankByID example_quiz) 4 = Some (example_question 4 100 0) \<and>
   topicID (example_question 4 100 0) \<le> 100 \<and>
   4 \<notin> set (getActionsForStateLevel False example_quiz) \<and>
   getActionsForStateLevel False example_quiz = [1, 3]"
proof -
  have o: "ordered_map (questionBankByID example_quiz)"
    by (simp add: example_quiz_def AdaptiveQuiz_new_def ordered_example_bank)
  have m: "map_of (questionBankByID example_quiz) 4 = Some (example_question 4 100 0)"
    by (simp add: example_quiz_def AdaptiveQuiz_new_def example_bank_def)
  have t: "topicID (example_question 4 100 0) \<le> 100"
    by (simp add: example_question_def)
  have l: "getActionsForStateLevel False example_quiz = [1, 3]"
    by (simp add: getActionsForStateLevel_def example_quiz_def AdaptiveQuiz_new_def
        example_bank_def example_question_def beginner_def)
  from getActionsForStateLevel_exact [OF o, of False] m t
  have "4 \<notin> set (getActionsForStateLevel False example_quiz)" by blast
  with o m t l show ?thesis by simp
qed

lemma keys_getActions:
  "set (getActionsForStateLevel x e) \<subseteq> fst ` set (questionBankByID e)"
  by (auto simp: getActionsForStateLevel_def Let_def)


lemma set_filteredCandidates:
  "set (filteredCandidates x e) \<subseteq> set (getActionsForStateLevel x e)"
  by (auto simp: filteredCandidates_def unasked_def)


lemma pool_empty_iff:
  "(filteredCandidates x e = []) = (getActionsForStateLevel x e = [])"
  by (auto simp: filteredCandidates_def unasked_def)

section \<open>Skill state updates\<close>

lemma promote_spec: "promote topic s = spec_increment topic s"
  by (auto simp: promote_def spec_increment_def spec_domain_def Let_def)

lemma demote_spec: "demote topic s = spec_decrement topic s"
  by (auto simp: demote_def spec_decrement_def spec_domain_def Let_def)

text \<open>
  Claim C3. For a question \<open>q\<close> stored in the bank under \<open>qid\<close>, \<open>updateState\<close> does
  the following. On a correct answer it adds the points of the difficulty (1 point for
  difficulty 0, 2 for 1, 3 for 2) to the correct streak of \<open>qid\<close> and sets the incorrect
  streak of \<open>qid\<close> to 0; if the correct streak is then at least 4, the skill domain of the
  question's topic (101 notes, 102 to 103 chords, 104 and above scales) goes up by one
  unless it has reached 2, and the correct streak of \<open>qid\<close> is set to 0. On an incorrect
  answer it adds exactly 1 to the incorrect streak of \<open>qid\<close> and sets the correct streak
  to 0; if the incorrect streak is then at least 4, that domain goes down by one unless
  it has reached 0, and the incorrect streak is set to 0. Nothing else in the engine
  changes. (The guards of the code are \<open>level < 2\<close> and \<open>level > 0\<close>, which for a level
  between 0 and 2 say that it is not yet 2, respectively not yet 0.)
\<close>

theorem updateState_streaks:
  assumes "ordered_map (questionBankByID e)"
    and "map_of (questionBankByID e) qid = Some q"
  shows "updateState qid True s e =
           (let streak = count_at (correctCounts e) qid + spec_points (difficulty q) in
            if streak \<ge> 4
            then (spec_increment (topicID q) s,
                  e\<lparr>correctCounts := (correctCounts e)(qid \<mapsto> 0),
                    incorrectCounts := (incorrectCounts e)(qid \<mapsto> 0)\<rparr>)
            else (s,
                  e\<lparr>correctCounts := (correctCounts e)(qid \<mapsto> streak),
                    incorrectCounts := (incorrectCounts e)(qid \<mapsto> 0)\<rparr>)) \<and>
         updateState qid False s e =
           (let streak = count_at (incorrectCounts e) qid + 1 in
            if streak \<ge> 4
            then (spec_decrement (topicID q) s,
                  e\<lparr>correctCounts := (correctCounts e)(qid \<mapsto> 0),
                    incorrectCounts := (incorrectCounts e)(qid \<mapsto> 0)\<rparr>)
            else (s,
                  e\<lparr>correctCounts := (correctCounts e)(qid \<mapsto> 0),
                    incorrectCounts := (incorrectCounts e)(qid \<mapsto> streak)\<rparr>))"
proof -
  have b: "subscript qid Question_default (questionBankByID e) = questionBankByID e"
    using assms by (rule subscript_present)
  have a: "at_key qid Question_default (questionBankByID e) = q"
    using assms(2) by (rule at_key_present)
  have p: "(if difficulty q = 2 then 3 else if difficulty q = 1 then 2 else (1::int)) =
      spec_points (difficulty q)"
    by (simp add: spec_points_def)
  show ?thesis
    unfolding updateState_def b a Let_def promote_spec demote_spec
    by (simp add: p count_at_def correctThreshold_def incorrectThreshold_def)
qed

text \<open>
  Question 2 of the example bank (chords, difficulty 1, so 2 points) with a correct
  streak of 2 and an incorrect streak of 3: one more correct answer reaches 4 and raises
  chords from 0 to 1; one more incorrect answer reaches 4, and chords stays at its
  floor 0. Both streaks read 0 afterwards.
\<close>

theorem updateState_streaks_witness:
  "ordered_map (questionBankByID streak_quiz) \<and>
   map_of (questionBankByID streak_quiz) 2 = Some (example_question 2 102 1) \<and>
   updateState 2 True beginner streak_quiz =
     (\<lparr>notes = 0, chords = 1, scales = 0\<rparr>,
      streak_quiz\<lparr>correctCounts := [2 \<mapsto> 0], incorrectCounts := [2 \<mapsto> 0]\<rparr>) \<and>
   updateState 2 False beginner streak_quiz =
     (beginner, streak_quiz\<lparr>correctCounts := [2 \<mapsto> 0], incorrectCounts := [2 \<mapsto> 0]\<rparr>)"
proof -
  have h1: "ordered_map (questionBankByID streak_quiz)"
    by (simp add: streak_quiz_def example_quiz_def AdaptiveQuiz_new_def ordered_example_bank)
  have h2: "map_of (questionBankByID streak_quiz) 2 = Some (example_question 2 102 1)"
    by (simp add: streak_quiz_def example_defs)
  show ?thesis
    using h1 h2 updateState_streaks [OF h1 h2, of beginner]
    by (simp add: streak_quiz_def example_defs count_at_def spec_points_def
        spec_increment_def spec_decrement_def spec_domain_def Let_def)
qed

lemma in_range_promote: "in_range s \<Longrightarrow> in_range (promote topic s)"
  by (auto simp: promote_def in_range_def Let_def)

lemma in_range_demote: "in_range s \<Longrightarrow> in_range (demote topic s)"
  by (auto simp: demote_def in_range_def Let_def)

lemma fst_updateState:
  "fst (updateState qid correct s e) = s \<or>
   (\<exists>topic. fst (updateState qid correct s e) = promote topic s) \<or>
   (\<exists>topic. fst (updateState qid correct s e) = demote topic s)"
  unfolding updateState_def Let_def by (simp split: if_splits) blast

lemma in_range_updateState: "in_range s \<Longrightarrow> in_range (fst (updateState qid correct s e))"
  using fst_updateState [of qid correct s e] in_range_promote in_range_demote by metis

lemma updateQTable_only_q_table:
  "\<exists>qt. updateQTable fl s a r s2 e = e\<lparr>q_table := qt\<rparr>"
  unfolding updateQTable_def Let_def by auto

lemma state_evaluateResponse:
  "\<exists>e'. state (evaluateResponse fl qid correct e) = fst (updateState qid correct (state e) e')"
proof -
  define e3 where "e3 = (let bank = subscript qid Question_default (questionBankByID e);
          e1 = e\<lparr>questionBankByID := bank,
                 history := history e @
                   [(state e, qid, description (at_key qid Question_default bank),
                     correct)]\<rparr>;
          e2 = e1\<lparr>totalQuestions := totalQuestions e1 + 1\<rparr>
       in (if correct
                then e2\<lparr>correctAnswers := correctAnswers e2 + 1, score := fl (score e2 + 10)\<rparr>
                else (let sc = fl (score e2 - 5) in e2\<lparr>score := (if sc < 0 then 0 else sc)\<rparr>)))"
  have s3: "state e3 = state e" by (simp add: e3_def Let_def)
  obtain st e4 where u: "updateState qid correct (state e3) e3 = (st, e4)" by (cases "updateState qid correct (state e3) e3")
  obtain qt where q: "updateQTable fl (state e3) qid (getReward (state e3) st correct) st (e4\<lparr>state := st\<rparr>) = e4\<lparr>state := st, q_table := qt\<rparr>"
    using updateQTable_only_q_table [of fl "state e3" qid _ st "e4\<lparr>state := st\<rparr>"] by auto
  have "state (evaluateResponse fl qid correct e) = st"
    unfolding evaluateResponse_def using u q by (simp add: Let_def e3_def)
  then show ?thesis using u s3 by (metis fst_conv)
qed

lemma in_range_evaluateResponse:
  "in_range (state e) \<Longrightarrow> in_range (state (evaluateResponse fl qid correct e))"
  using state_evaluateResponse [of fl qid correct e] in_range_updateState by metis

lemma in_range_evaluateResponses:
  "in_range (state e) \<Longrightarrow> in_range (state (evaluateResponses fl calls e))"
  by (induction calls arbitrary: e) (auto simp: in_range_evaluateResponse)

text \<open>
  Claim C1. Starting from an engine whose skill state has all three levels between 0
  and 2, after every call of any finite sequence of \<open>evaluateResponse\<close> calls, with
  arbitrary question ids (in the bank or not) and correctness flags, all three levels
  are still between 0 and 2. (\<open>take n calls\<close> is the sequence up to its \<open>n\<close>-th call.)
\<close>

theorem skill_levels_stay_in_range:
  assumes "in_range (state e)"
  shows "in_range (state (evaluateResponses fl (take n calls) e))"
  using assms by (rule in_range_evaluateResponses)

lemma four_correct:
  "state (evaluateResponses (\<lambda>x. x) [(1, True), (1, True), (1, True), (1, True)] example_quiz) =
     \<lparr>notes = 1, chords = 0, scales = 0\<rparr>"
  by (simp add: example_defs engine_defs Let_def)

text \<open>
  Four correct answers to question 1 (notes, difficulty 0) of the example session raise
  notes from 0 to 1.
\<close>

theorem skill_levels_stay_in_range_witness:
  "in_range (state example_quiz) \<and>
   in_range (state (evaluateResponses (\<lambda>x. x)
      (take 4 [(1, True), (1, True), (1, True), (1, True), (1, True)]) example_quiz)) \<and>
   state (evaluateResponses (\<lambda>x. x)
      (take 4 [(1, True), (1, True), (1, True), (1, True), (1, True)]) example_quiz) =
     \<lparr>notes = 1, chords = 0, scales = 0\<rparr>"
proof -
  have h: "in_range (state example_quiz)"
    by (simp add: example_defs in_range_def)
  have t: "take 4 [(1, True), (1, True), (1, True), (1, True), (1::int, True)] =
      [(1, True), (1, True), (1, True), (1, True)]" by simp
  show ?thesis
    using h skill_levels_stay_in_range [OF h, of "\<lambda>x. x" 4
        "[(1, True), (1, True), (1, True), (1, True), (1, True)]"] four_correct
    unfolding t by simp
qed

section \<open>The Q-learning update\<close>

lemma Max_insert_max:
  "finite S \<Longrightarrow> Max (insert (max a q) S) = Max (insert (a::real) (insert q S))"
  by (cases "S = {}") (simp_all add: max.assoc)

lemma foldl_max:
  "foldl (\<lambda>maxQ (_, q). if q > maxQ then q else maxQ) (acc::real) row =
     Max (insert acc (snd ` set row))"
proof (induction row arbitrary: acc)
  case Nil
  then show ?case by simp
next
  case (Cons a row)
  obtain k q where a: "a = (k, q)" by (cases a)
  have m: "(if acc < q then q else acc) = max acc q" by (simp add: max_def)
  show ?case
    unfolding a by (simp only: foldl_Cons case_prod_conv m Cons.IH Max_insert_max
        list.set image_insert snd_conv finite_imageI finite_set)
qed

lemma maxQValue_Max: "maxQValue s e = Max (insert 0 (snd ` set (row_at (q_table e) s)))"
  by (simp add: maxQValue_def row_at_def foldl_max split: option.splits)

lemma Max_insert_zero_entry:
  "Max (insert (0::real) (snd ` set (subscript k 0 m))) = Max (insert 0 (snd ` set m))"
proof -
  have "insert (0::real) (snd ` set (subscript k 0 m)) = insert 0 (snd ` set m)"
    using set_subscript_upper [of k "0::real" m] set_subscript_lower [of m k "0::real"]
    by force
  then show ?thesis by simp
qed

lemma getQValue_at_key: "getQValue s qid e = at_key qid 0 (row_at (q_table e) s)"
  by (simp add: getQValue_def at_key_def row_at_def split: option.splits)

lemma row_at_upd: "row_at (qt(s \<mapsto> row)) s = row"
  by (simp add: row_at_def)

text \<open>
  Claim C2. One call \<open>updateQTable s a r s2\<close> sets the value stored for \<open>(s, a)\<close> to
  \<open>old + 0.1 * (r + 0.9 * maxQ(s2) - old)\<close>, where \<open>old\<close> is the value stored before
  (0.0 if there was none) and \<open>maxQ(s2)\<close> is the maximum over 0.0 and the values stored
  for \<open>s2\<close> before the call, so that a state without entries or with only negative
  entries contributes 0.0. The first equation is the formula in float arithmetic: the
  constants are the floats next to 0.1 and 0.9 and every operation is rounded by \<open>fl\<close>,
  whatever the rounding is. The second is the same formula with exact arithmetic. On an
  empty table the result is \<open>0.1 * r\<close> (rounded once), given what holds of every float
  rounding: it is idempotent and leaves the floats 0.0 and \<open>r\<close> as they are.
\<close>

theorem updateQTable_rule:
  assumes "ordered_map (row_at (q_table e) s)"
  shows "getQValue s a (updateQTable fl s a r s2 e) =
           fl (getQValue s a e +
               fl (fl (1 / 10) *
                   fl (fl (r + fl (fl (9 / 10) * maxQValue s2 e)) - getQValue s a e))) \<and>
         getQValue s a (updateQTable (\<lambda>x. x) s a r s2 e) =
           getQValue s a e + 1 / 10 * (r + 9 / 10 * maxQValue s2 e - getQValue s a e) \<and>
         maxQValue s2 e = Max (insert 0 (snd ` set (row_at (q_table e) s2))) \<and>
         (q_table e = Map.empty \<and> fl 0 = 0 \<and> fl r = r \<and> (\<forall>y. fl (fl y) = fl y) \<longrightarrow>
            getQValue s a (updateQTable fl s a r s2 e) = fl (fl (1 / 10) * r))"
proof -
  define row where "row = subscript a 0 (row_at (q_table e) s)"
  define e1 where "e1 = e\<lparr>q_table := (q_table e)(s \<mapsto> row)\<rparr>"
  have old: "at_key a 0 row = getQValue s a e"
    unfolding row_def using assms by (simp add: at_key_subscript getQValue_at_key)
  have present: "map_of row a \<noteq> None"
    unfolding row_def by (simp add: map_of_subscript [OF assms])
  have mx: "maxQValue s2 e1 = maxQValue s2 e"
    unfolding maxQValue_Max e1_def row_def
    by (simp add: row_at_def Max_insert_zero_entry)
  have new: "getQValue s a (updateQTable g s a r s2 e) =
           g (getQValue s a e +
               g (g (1 / 10) *
                   g (g (r + g (g (9 / 10) * maxQValue s2 e)) - getQValue s a e)))" for g
    unfolding updateQTable_def Let_def row_def [symmetric] e1_def [symmetric] mx old lr_def df_def
    using present by (simp add: getQValue_def e1_def map_of_assign)
  have exact: "getQValue s a (updateQTable (\<lambda>x. x) s a r s2 e) =
           getQValue s a e + 1 / 10 * (r + 9 / 10 * maxQValue s2 e - getQValue s a e)"
    unfolding new by simp
  have emp: "q_table e = Map.empty \<Longrightarrow> getQValue s a e = 0 \<and> maxQValue s2 e = 0"
    by (simp add: getQValue_def maxQValue_def)
  have "q_table e = Map.empty \<and> fl 0 = 0 \<and> fl r = r \<and> (\<forall>y. fl (fl y) = fl y) \<longrightarrow>
            getQValue s a (updateQTable fl s a r s2 e) = fl (fl (1 / 10) * r)"
    unfolding new using emp by auto
  with new [of fl] exact maxQValue_Max [of s2 e] show ?thesis by blast
qed

text \<open>
  With exact arithmetic and reward 5. In the tied session the beginner row holds 0.5
  for the questions 1 and 3, so \<open>maxQ\<close> of the beginner state is 0.5: updating
  question 1 of that state gives \<open>0.5 + 0.1 * (5 + 0.9 * 0.5 - 0.5) = 0.995\<close>, and
  updating question 2 of another state, which has no value yet, with the beginner state
  as next state gives \<open>0.1 * (5 + 0.9 * 0.5) = 0.545\<close>. The first update of an empty
  table stores 0.5, and a row whose only value is negative has the maximum 0.
\<close>

theorem updateQTable_rule_witness:
  "ordered_map (row_at (q_table tied_quiz) beginner) \<and>
   ordered_map (row_at (q_table tied_quiz) \<lparr>notes = 1, chords = 0, scales = 0\<rparr>) \<and>
   ordered_map (row_at (q_table example_quiz) beginner) \<and>
   q_table example_quiz = Map.empty \<and>
   maxQValue beginner tied_quiz = 1 / 2 \<and>
   getQValue beginner 1 (updateQTable (\<lambda>x. x) beginner 1 5 beginner tied_quiz) = 199 / 200 \<and>
   getQValue \<lparr>notes = 1, chords = 0, scales = 0\<rparr> 2
     (updateQTable (\<lambda>x. x) \<lparr>notes = 1, chords = 0, scales = 0\<rparr> 2 5 beginner tied_quiz) =
     109 / 200 \<and>
   getQValue beginner 1 (updateQTable (\<lambda>x. x) beginner 1 5 beginner example_quiz) = 1 / 2 \<and>
   maxQValue beginner negative_quiz = 0"
proof -
  have t: "q_table tied_quiz = [beginner \<mapsto> [(1, 1 / 2), (3, 1 / 2)]]"
    by (simp add: tied_quiz_def)
  have ne: "\<lparr>notes = 1, chords = 0, scales = 0\<rparr> \<noteq> beginner" by (simp add: beginner_def)
  have h1: "ordered_map (row_at (q_table tied_quiz) beginner)"
    by (simp add: t row_at_def ordered_map_def)
  have h2: "ordered_map (row_at (q_table tied_quiz) \<lparr>notes = 1, chords = 0, scales = 0\<rparr>)"
    using ne by (simp add: t row_at_def ordered_map_def)
  have h3: "ordered_map (row_at (q_table example_quiz) beginner)"
    by (simp add: example_defs row_at_def ordered_map_def)
  have e: "q_table example_quiz = Map.empty" by (simp add: example_defs)
  have m: "maxQValue beginner tied_quiz = 1 / 2" by (simp add: maxQValue_def t)
  have q1: "getQValue beginner 1 tied_quiz = 1 / 2" by (simp add: getQValue_def t)
  have q2: "getQValue \<lparr>notes = 1, chords = 0, scales = 0\<rparr> 2 tied_quiz = 0"
    using ne by (simp add: getQValue_def t)
  have v1: "getQValue beginner 1 (updateQTable (\<lambda>x. x) beginner 1 5 beginner tied_quiz) =
      199 / 200"
    using conjunct1 [OF updateQTable_rule [OF h1, of 1 "\<lambda>x. x" 5 beginner]]
    by (simp add: m q1)
  have v2: "getQValue \<lparr>notes = 1, chords = 0, scales = 0\<rparr> 2
     (updateQTable (\<lambda>x. x) \<lparr>notes = 1, chords = 0, scales = 0\<rparr> 2 5 beginner tied_quiz) =
     109 / 200"
    using conjunct1 [OF updateQTable_rule [OF h2, of 2 "\<lambda>x. x" 5 beginner]]
    by (simp add: m q2)
  have v3: "getQValue beginner 1 (updateQTable (\<lambda>x. x) beginner 1 5 beginner example_quiz) =
      1 / 2"
    using conjunct2 [OF conjunct2 [OF conjunct2
        [OF updateQTable_rule [OF h3, of 1 "\<lambda>x. x" 5 beginner]]]] e
    by simp
  have n: "maxQValue beginner negative_quiz = 0"
    by (simp add: maxQValue_def negative_quiz_def)
  from h1 h2 h3 e m v1 v2 v3 n show ?thesis by simp
qed

lemma ordered_row_updateQTable:
  "ordered_map (row_at (q_table e) s') \<Longrightarrow>
   ordered_map (row_at (q_table (updateQTable fl s a r s2 e)) s')"
  unfolding updateQTable_def Let_def
  by (cases "s' = s") (simp_all add: row_at_def ordered_assign ordered_subscript)

section \<open>Selecting the next question\<close>

lemma group_loop_frame:
  assumes "ordered_map bank" and "set xs \<subseteq> fst ` set bank"
  shows "fst (group_loop xs bank (a, b, c)) = bank \<and>
         set (fst (snd (group_loop xs bank (a, b, c)))) \<subseteq> set a \<union> set xs \<and>
         set (fst (snd (snd (group_loop xs bank (a, b, c))))) \<subseteq> set b \<union> set xs \<and>
         set (snd (snd (snd (group_loop xs bank (a, b, c))))) \<subseteq> set c \<union> set xs"
  using assms(2)
proof (induction xs arbitrary: a b c)
  case Nil
  then show ?case by simp
next
  case (Cons x xs)
  from Cons.prems obtain v where "map_of bank x = Some v"
    using key_present [of x bank] by auto
  then have b: "subscript x Question_default bank = bank"
    by (rule subscript_present [OF assms(1)])
  have sub: "set xs \<subseteq> fst ` set bank" using Cons.prems by simp
  show ?case
    using Cons.IH [OF sub, of "a @ [x]" b c] Cons.IH [OF sub, of a "b @ [x]" c]
      Cons.IH [OF sub, of a b "c @ [x]"] Cons.IH [OF sub, of a b c]
    by (simp add: b Let_def) blast
qed

lemma getNextAction_fallback:
  assumes "filteredCandidates (explore_draw fl rand_max r1 (state e)) e = []"
  shows "getNextAction fl rand_max r1 r2 r3 e =
           (case questionBankByID e of
              [] \<Rightarrow> Inl Deref_end
            | (k, _) # _ \<Rightarrow> Inr (k, e\<lparr>askedQuestionsThisSession := {}\<rparr>))"
proof -
  have "unasked (explore_draw fl rand_max r1 (state e)) e = []"
    using assms by (simp add: filteredCandidates_def split: if_splits)
  then show ?thesis
    unfolding getNextAction_def Let_def using assms by (simp split: list.splits)
qed

lemma getNextAction_explore:
  assumes "ordered_map (questionBankByID e)"
    and "explore_draw fl rand_max r1 (state e)"
    and "filteredCandidates True e \<noteq> []"
  shows "\<exists>qid \<in> set (filteredCandidates True e).
           getNextAction fl rand_max r1 r2 r3 e =
             Inr (qid, if unasked True e = [] then e\<lparr>askedQuestionsThisSession := {}\<rparr> else e)"
proof -
  define pool where "pool = filteredCandidates True e"
  define e1 where "e1 = (if unasked True e = [] then e\<lparr>askedQuestionsThisSession := {}\<rparr> else e)"
  have bank1: "questionBankByID e1 = questionBankByID e" by (simp add: e1_def)
  have sub: "set pool \<subseteq> fst ` set (questionBankByID e)"
    unfolding pool_def using set_filteredCandidates keys_getActions by blast
  obtain bank nq cq sq where g: "group_loop pool (questionBankByID e) ([], [], []) = (bank, nq, cq, sq)"
    by (cases "group_loop pool (questionBankByID e) ([], [], [])") auto
  from group_loop_frame [OF assms(1) sub, of "[]" "[]" "[]"] g
  have fr: "bank = questionBankByID e" "set nq \<subseteq> set pool" "set cq \<subseteq> set pool" "set sq \<subseteq> set pool"
    by auto
  have e2: "e1\<lparr>questionBankByID := questionBankByID e\<rparr> = e1" using bank1 by simp
  have ne: "pool \<noteq> []" using assms(3) by (simp add: pool_def)
  have mem: "pool ! (r3 mod length pool) \<in> set pool" using ne by simp
  have memn: "nq \<noteq> [] \<Longrightarrow> nq ! (r3 mod length nq) \<in> set pool" using fr(2) nth_mod_mem by blast
  have memc: "cq \<noteq> [] \<Longrightarrow> cq ! (r3 mod length cq) \<in> set pool" using fr(3) nth_mod_mem by blast
  have mems: "sq \<noteq> [] \<Longrightarrow> sq ! (r3 mod length sq) \<in> set pool" using fr(4) nth_mod_mem by blast
  have "\<exists>qid \<in> set pool. getNextAction fl rand_max r1 r2 r3 e = Inr (qid, e1)"
    unfolding getNextAction_def Let_def
    using assms(2) ne g mem memn memc mems
    by (simp add: pool_def [symmetric] e1_def [symmetric] bank1 fr(1) e2)
  then show ?thesis by (simp add: pool_def e1_def)
qed

lemma exploit_loop_table:
  "snd (exploit_loop s xs qt b v) =
     (if xs = [] then qt
      else qt(s \<mapsto> foldl (\<lambda>row k. subscript k 0 row) (row_at qt s) xs))"
proof (induction xs arbitrary: qt b v)
  case Nil
  then show ?case by simp
next
  case (Cons x xs)
  show ?case
    by (auto simp add: Cons.IH Let_def row_at_upd fun_eq_iff)
qed


lemma exploit_loop_mem: "fst (exploit_loop s xs qt b v) \<in> insert b (set xs)"
  by (induction xs arbitrary: qt b v) (auto simp: Let_def)

lemma getNextAction_exploit:
  assumes "\<not> explore_draw fl rand_max r1 (state e)"
    and "filteredCandidates False e \<noteq> []"
  shows "getNextAction fl rand_max r1 r2 r3 e =
           Inr (fst (exploit_loop (state e) (filteredCandidates False e) (q_table e)
                  (hd (filteredCandidates False e)) sentinel),
                (if unasked False e = [] then e\<lparr>askedQuestionsThisSession := {}\<rparr> else e)
                  \<lparr>q_table := snd (exploit_loop (state e) (filteredCandidates False e) (q_table e)
                  (hd (filteredCandidates False e)) sentinel)\<rparr>)"
  unfolding getNextAction_def Let_def using assms by (simp add: case_prod_beta)

lemma getNextAction_frame:
  assumes "getNextAction fl rand_max r1 r2 r3 e = Inr (qid, e')"
  shows "score e' = score e \<and> correctAnswers e' = correctAnswers e \<and>
         totalQuestions e' = totalQuestions e \<and> history e' = history e \<and>
         correctCounts e' = correctCounts e \<and> incorrectCounts e' = incorrectCounts e \<and>
         state e' = state e \<and>
         askedQuestionsThisSession e' =
           (if unasked (explore_draw fl rand_max r1 (state e)) e = [] then {}
            else askedQuestionsThisSession e) \<and>
         (explore_draw fl rand_max r1 (state e) \<or>
            filteredCandidates (explore_draw fl rand_max r1 (state e)) e = [] \<longrightarrow>
          q_table e' = q_table e)"
  using assms unfolding getNextAction_def Let_def
  by (auto simp: case_prod_beta split: if_splits list.splits option.splits)

lemma bank_getNextAction:
  assumes "ordered_map (questionBankByID e)"
    and "getNextAction fl rand_max r1 r2 r3 e = Inr (qid, e')"
  shows "questionBankByID e' = questionBankByID e"
proof (cases "filteredCandidates (explore_draw fl rand_max r1 (state e)) e = []")
  case True
  from getNextAction_fallback [OF True, of r2 r3] assms(2) show ?thesis
    by (auto split: list.splits)
next
  case False
  show ?thesis
  proof (cases "explore_draw fl rand_max r1 (state e)")
    case True
    with False have "filteredCandidates True e \<noteq> []" by simp
    from getNextAction_explore [OF assms(1) True this, of r2 r3] assms(2) show ?thesis
      by (auto split: if_splits)
  next
    case no: False
    with False have "filteredCandidates False e \<noteq> []" by simp
    from getNextAction_exploit [OF no this, of r2 r3] assms(2) show ?thesis
      by (auto split: if_splits)
  qed
qed



lemma example_next:
  "getNextAction (\<lambda>x. x) 32767 32767 0 0 example_quiz =
     Inr (1, example_quiz\<lparr>q_table := [beginner \<mapsto> [(1, 0), (3, 0)]]\<rparr>)"
proof -
  have s: "state example_quiz = beginner" by (simp add: example_defs)
  have p: "filteredCandidates False example_quiz = [1, 3]"
    by (simp add: filteredCandidates_def unasked_def getActionsForStateLevel_def example_defs)
  have u: "unasked False example_quiz = [1, 3]"
    by (simp add: unasked_def getActionsForStateLevel_def example_defs)
  have t: "q_table example_quiz = Map.empty" by (simp add: example_defs)
  show ?thesis
    using getNextAction_exploit [of "\<lambda>x. x" 32767 32767 example_quiz 0 0] exploit_example
    by (simp add: s p u t row_at_def at_key_def sentinel_def Let_def)
qed

lemma asked_next:
  "getNextAction (\<lambda>x. x) 32767 32767 0 0 asked_quiz =
     Inr (1, asked_quiz\<lparr>askedQuestionsThisSession := {},
                        q_table := [beginner \<mapsto> [(1, 0), (3, 0)]]\<rparr>)"
proof -
  have s: "state asked_quiz = beginner" by (simp add: asked_quiz_def example_defs)
  have u: "unasked False asked_quiz = []"
    by (simp add: unasked_def getActionsForStateLevel_def asked_quiz_def example_defs)
  have p: "filteredCandidates False asked_quiz = [1, 3]"
    by (simp add: filteredCandidates_def u) (simp add: getActionsForStateLevel_def asked_quiz_def example_defs)
  have t: "q_table asked_quiz = Map.empty" by (simp add: asked_quiz_def example_defs)
  show ?thesis
    using getNextAction_exploit [of "\<lambda>x. x" 32767 32767 asked_quiz 0 0] exploit_example
    by (simp add: s p u t row_at_def at_key_def sentinel_def Let_def)
qed






text \<open>
  With a question bank that is not empty, \<open>getNextAction\<close> always returns an id, and
  the id is a key of the bank. If there is no candidate for the current skill state, it
  is the lowest key of the whole bank. If there are candidates and all of them have been
  asked, the asked-set is emptied and the id is one of the candidates (repetition
  permitted). Otherwise the asked-set is unchanged and the id is a candidate that has
  not been asked.
\<close>

theorem getNextAction_returns_id:
  assumes "ordered_map (questionBankByID e)" and "questionBankByID e \<noteq> []"
  shows "let x = explore_draw fl rand_max r1 (state e) in
         \<exists>qid e'. getNextAction fl rand_max r1 r2 r3 e = Inr (qid, e') \<and>
           qid \<in> fst ` set (questionBankByID e) \<and>
           (getActionsForStateLevel x e = [] \<longrightarrow>
              qid = fst (hd (questionBankByID e)) \<and>
              (\<forall>k \<in> fst ` set (questionBankByID e). qid \<le> k)) \<and>
           (getActionsForStateLevel x e \<noteq> [] \<and> unasked x e = [] \<longrightarrow>
              askedQuestionsThisSession e' = {} \<and> qid \<in> set (getActionsForStateLevel x e)) \<and>
           (unasked x e \<noteq> [] \<longrightarrow>
              askedQuestionsThisSession e' = askedQuestionsThisSession e \<and>
              qid \<in> set (unasked x e))"
proof -
  define x where "x = explore_draw fl rand_max r1 (state e)"
  define pool where "pool = filteredCandidates x e"
  define e1 where "e1 = (if unasked x e = [] then e\<lparr>askedQuestionsThisSession := {}\<rparr> else e)"
  have pool: "pool = (if unasked x e = [] then getActionsForStateLevel x e else unasked x e)"
    by (simp add: pool_def filteredCandidates_def)
  have keys: "set pool \<subseteq> fst ` set (questionBankByID e)"
    unfolding pool_def using set_filteredCandidates keys_getActions by blast
  have un: "getActionsForStateLevel x e = [] \<Longrightarrow> unasked x e = []"
    by (simp add: unasked_def)
  have a1: "askedQuestionsThisSession e1 =
      (if unasked x e = [] then {} else askedQuestionsThisSession e)"
    by (simp add: e1_def)
  have "\<exists>qid e'. getNextAction fl rand_max r1 r2 r3 e = Inr (qid, e') \<and>
           qid \<in> fst ` set (questionBankByID e) \<and>
           (getActionsForStateLevel x e = [] \<longrightarrow>
              qid = fst (hd (questionBankByID e)) \<and>
              (\<forall>k \<in> fst ` set (questionBankByID e). qid \<le> k)) \<and>
           (getActionsForStateLevel x e \<noteq> [] \<and> unasked x e = [] \<longrightarrow>
              askedQuestionsThisSession e' = {} \<and> qid \<in> set (getActionsForStateLevel x e)) \<and>
           (unasked x e \<noteq> [] \<longrightarrow>
              askedQuestionsThisSession e' = askedQuestionsThisSession e \<and>
              qid \<in> set (unasked x e))"
  proof (cases "pool = []")
    case True
    then have c: "getActionsForStateLevel x e = []"
      by (simp add: pool_def pool_empty_iff)
    obtain k v m where b: "questionBankByID e = (k, v) # m"
      using assms(2) by (cases "questionBankByID e") auto
    have low: "\<forall>k' \<in> fst ` set (questionBankByID e). k \<le> k'"
      using assms(1) unfolding b ordered_map_Cons by auto
    have "getNextAction fl rand_max r1 r2 r3 e = Inr (k, e\<lparr>askedQuestionsThisSession := {}\<rparr>)"
      using getNextAction_fallback [of fl rand_max r1 e r2 r3] True
      by (simp add: pool_def x_def b)
    then show ?thesis using c un low by (simp add: b)
  next
    case False
    then have c: "getActionsForStateLevel x e \<noteq> []"
      by (simp add: pool_def pool_empty_iff)
    have "\<exists>qid \<in> set pool. \<exists>qt. getNextAction fl rand_max r1 r2 r3 e = Inr (qid, e1\<lparr>q_table := qt\<rparr>)"
    proof (cases x)
      case True
      from getNextAction_explore [OF assms(1), of fl rand_max r1 r2 r3] True False
      obtain qid where "qid \<in> set pool" "getNextAction fl rand_max r1 r2 r3 e = Inr (qid, e1)"
        unfolding x_def pool_def e1_def by auto
      then have "qid \<in> set pool \<and>
          getNextAction fl rand_max r1 r2 r3 e = Inr (qid, e1\<lparr>q_table := q_table e1\<rparr>)"
        by simp
      then show ?thesis by blast
    next
      case no: False
      have ne: "filteredCandidates False e \<noteq> []" using False no by (simp add: pool_def)
      have "fst (exploit_loop (state e) pool (q_table e) (hd pool) sentinel) \<in> set pool"
        using exploit_loop_mem [of "state e" pool "q_table e" "hd pool" sentinel] False
        by (cases pool) auto
      then show ?thesis
        using getNextAction_exploit [of fl rand_max r1 e r2 r3] no ne
        unfolding x_def [symmetric] by (auto simp: pool_def e1_def)
    qed
    then obtain qid qt where q: "qid \<in> set pool"
        "getNextAction fl rand_max r1 r2 r3 e = Inr (qid, e1\<lparr>q_table := qt\<rparr>)"
      by blast
    have "qid \<in> fst ` set (questionBankByID e)" using q(1) keys by blast
    then show ?thesis using q c a1 unfolding pool by (auto split: if_splits)
  qed
  then show ?thesis unfolding x_def Let_def .
qed

text \<open>
  The bank with the single chord question of difficulty 1 and a beginner, no stretch:
  the question is no candidate, and its id is returned all the same.
\<close>

theorem getNextAction_returns_id_witness:
  "ordered_map (questionBankByID single_quiz) \<and>
   questionBankByID single_quiz = [(2, example_question 2 102 1)] \<and>
   getActionsForStateLevel (explore_draw (\<lambda>x. x) 32767 32767 (state single_quiz)) single_quiz = [] \<and>
   getNextAction (\<lambda>x. x) 32767 32767 0 0 single_quiz = Inr (2, single_quiz)"
proof -
  have b: "questionBankByID single_quiz = [(2, example_question 2 102 1)]"
    by (simp add: single_quiz_def AdaptiveQuiz_new_def)
  have h1: "ordered_map (questionBankByID single_quiz)"
    by (simp add: b ordered_map_def)
  have h2: "questionBankByID single_quiz \<noteq> []" by (simp add: b)
  have s: "state single_quiz = beginner" by (simp add: single_quiz_def AdaptiveQuiz_new_def)
  have x: "explore_draw (\<lambda>x. x) 32767 32767 (state single_quiz) = False"
    by (simp add: s exploit_example)
  have c: "getActionsForStateLevel (explore_draw (\<lambda>x. x) 32767 32767 (state single_quiz))
      single_quiz = []"
    unfolding x
    by (simp add: getActionsForStateLevel_def single_quiz_def
        AdaptiveQuiz_new_def example_question_def beginner_def)
  from getNextAction_returns_id [OF h1 h2, of "\<lambda>x. x" 32767 32767 0 0]
  obtain qid e' where r: "getNextAction (\<lambda>x. x) 32767 32767 0 0 single_quiz = Inr (qid, e')"
    and q: "qid = fst (hd (questionBankByID single_quiz))"
    unfolding Let_def using c by blast
  have f: "getNextAction (\<lambda>x. x) 32767 32767 0 0 single_quiz =
      Inr (2, single_quiz\<lparr>askedQuestionsThisSession := {}\<rparr>)"
    using getNextAction_fallback [of "\<lambda>x. x" 32767 32767 single_quiz 0 0] c
    by (simp add: pool_empty_iff b)
  have "single_quiz\<lparr>askedQuestionsThisSession := {}\<rparr> = single_quiz"
    by (simp add: single_quiz_def AdaptiveQuiz_new_def)
  with f r q h1 b c show ?thesis by simp
qed


text \<open>
  Claim C10, amended. A call of \<open>getNextAction\<close> that returns leaves the score,
  \<open>correctAnswers\<close>, \<open>totalQuestions\<close>, the history, both streak counters and the skill
  state unchanged. The asked-set is unchanged unless no candidate is left unasked, in
  which case it is emptied. In the exploit branch (the draw is not below epsilon and the
  filtered candidate list is not empty) the Q-table returned by \<open>getQTable\<close> afterwards
  has a row for the current state in which every filtered candidate without a stored
  value has the value 0.0, and is otherwise as before; in the other branches the Q-table
  is unchanged. So selecting a question can add entries to the Q-table without any
  \<open>evaluateResponse\<close> call.
\<close>

theorem getNextAction_effects:
  assumes "getNextAction fl rand_max r1 r2 r3 e = Inr (qid, e')"
    and "ordered_map (row_at (q_table e) (state e))"
  shows "let x = explore_draw fl rand_max r1 (state e);
             pool = filteredCandidates x e;
             row = row_at (q_table e) (state e) in
         score e' = score e \<and> correctAnswers e' = correctAnswers e \<and>
         totalQuestions e' = totalQuestions e \<and> history e' = history e \<and>
         correctCounts e' = correctCounts e \<and> incorrectCounts e' = incorrectCounts e \<and>
         state e' = state e \<and>
         askedQuestionsThisSession e' =
           (if unasked x e = [] then {} else askedQuestionsThisSession e) \<and>
         (if \<not> x \<and> pool \<noteq> []
          then (\<forall>s. s \<noteq> state e \<longrightarrow> getQTable e' s = getQTable e s) \<and>
               (\<exists>row'. getQTable e' (state e) = Some row' \<and>
                  (\<forall>k. map_of row' k =
                     (if k \<in> set pool \<and> map_of row k = None then Some 0 else map_of row k)))
          else getQTable e' = getQTable e)"
proof -
  define x where "x = explore_draw fl rand_max r1 (state e)"
  define pool where "pool = filteredCandidates x e"
  define row where "row = row_at (q_table e) (state e)"
  note fr = getNextAction_frame [OF assms(1), folded x_def]
  have qt: "if \<not> x \<and> pool \<noteq> []
          then (\<forall>s. s \<noteq> state e \<longrightarrow> getQTable e' s = getQTable e s) \<and>
               (\<exists>row'. getQTable e' (state e) = Some row' \<and>
                  (\<forall>k. map_of row' k =
                     (if k \<in> set pool \<and> map_of row k = None then Some 0 else map_of row k)))
          else getQTable e' = getQTable e"
  proof (cases "\<not> x \<and> pool \<noteq> []")
    case True
    then have nx: "\<not> explore_draw fl rand_max r1 (state e)" and x: "x = False"
      and ne: "filteredCandidates False e \<noteq> []"
      by (auto simp: x_def pool_def)
    have p: "filteredCandidates False e = pool" using x by (simp add: pool_def)
    from getNextAction_exploit [OF nx ne, of r2 r3] assms(1)
    have "q_table e' = snd (exploit_loop (state e) pool (q_table e) (hd pool) sentinel)"
      by (auto simp: p)
    then have t: "q_table e' =
        (q_table e)(state e \<mapsto> foldl (\<lambda>row k. subscript k 0 row) row pool)"
      using True by (simp add: exploit_loop_table row_def)
    from fold_subscript [OF assms(2), of 0 pool]
    have m: "\<forall>k. map_of (foldl (\<lambda>row k. subscript k 0 row) row pool) k =
        (if k \<in> set pool \<and> map_of row k = None then Some 0 else map_of row k)"
      unfolding row_def by auto
    show ?thesis using True t m by (simp add: getQTable_def)
  next
    case False
    then have q: "q_table e' = q_table e" using fr by (auto simp: pool_def)
    have c: "(\<not> x \<and> pool \<noteq> []) = False" using False by simp
    show ?thesis unfolding c by (simp add: getQTable_def q)
  qed
  show ?thesis
    unfolding Let_def x_def [symmetric] pool_def [symmetric] row_def [symmetric]
    using fr qt by simp
qed

text \<open>
  The example session in the exploit branch: the Q-table has no row for the beginner
  state before the call and the row with 0.0 for the candidates 1 and 3 after it.
\<close>

theorem getNextAction_effects_witness:
  "getNextAction (\<lambda>x. x) 32767 32767 0 0 example_quiz =
     Inr (1, example_quiz\<lparr>q_table := [beginner \<mapsto> [(1, 0), (3, 0)]]\<rparr>) \<and>
   ordered_map (row_at (q_table example_quiz) (state example_quiz)) \<and>
   getQTable example_quiz beginner = None \<and>
   getQTable (example_quiz\<lparr>q_table := [beginner \<mapsto> [(1, 0), (3, 0)]]\<rparr>) beginner =
     Some [(1, 0), (3, 0)] \<and>
   askedQuestionsThisSession (example_quiz\<lparr>q_table := [beginner \<mapsto> [(1, 0), (3, 0)]]\<rparr>) =
     {}"
proof -
  have h2: "ordered_map (row_at (q_table example_quiz) (state example_quiz))"
    by (simp add: example_defs row_at_def ordered_map_def)
  have u: "unasked False example_quiz = [1, 3]"
    by (simp add: unasked_def getActionsForStateLevel_def example_defs)
  have s: "state example_quiz = beginner" by (simp add: example_defs)
  from getNextAction_effects [OF example_next h2]
  have "askedQuestionsThisSession (example_quiz\<lparr>q_table := [beginner \<mapsto> [(1, 0), (3, 0)]]\<rparr>) =
      askedQuestionsThisSession example_quiz"
    using exploit_example by (simp add: Let_def s u)
  then have a: "askedQuestionsThisSession
      (example_quiz\<lparr>q_table := [beginner \<mapsto> [(1, 0), (3, 0)]]\<rparr>) = {}"
    by (simp add: example_defs)
  have g: "getQTable example_quiz beginner = None" by (simp add: getQTable_def example_defs)
  show ?thesis using h2 a g by (simp add: example_next getQTable_def)
qed

text \<open>
  Claim C10 as stated fails for the asked-set: in the example session in which both
  candidates 1 and 3 have been asked, \<open>getNextAction\<close> empties the asked-set.
\<close>

theorem asked_set_is_cleared:
  "getNextAction (\<lambda>x. x) 32767 32767 0 0 asked_quiz =
     Inr (1, asked_quiz\<lparr>askedQuestionsThisSession := {},
                        q_table := [beginner \<mapsto> [(1, 0), (3, 0)]]\<rparr>) \<and>
   askedQuestionsThisSession asked_quiz = {1, 3} \<and>
   askedQuestionsThisSession
     (asked_quiz\<lparr>askedQuestionsThisSession := {},
                 q_table := [beginner \<mapsto> [(1, 0), (3, 0)]]\<rparr>) = {}"
  by (simp add: asked_next) (simp add: asked_quiz_def)

section \<open>Effects of evaluateResponse\<close>

lemma updateQTable_frame:
  "state (updateQTable fl s a r s2 e) = state e \<and>
   questionBankByID (updateQTable fl s a r s2 e) = questionBankByID e \<and>
   history (updateQTable fl s a r s2 e) = history e \<and>
   totalQuestions (updateQTable fl s a r s2 e) = totalQuestions e"
  unfolding updateQTable_def Let_def by simp

lemma updateState_frame:
  "questionBankByID (snd (updateState qid correct s e)) =
     subscript qid Question_default (subscript qid Question_default (questionBankByID e)) \<and>
   history (snd (updateState qid correct s e)) = history e \<and>
   totalQuestions (snd (updateState qid correct s e)) = totalQuestions e"
  unfolding updateState_def Let_def by simp

lemma history_evaluateResponse:
  "history (evaluateResponse fl qid correct e) =
     history e @ [(state e, qid,
        description (at_key qid Question_default
          (subscript qid Question_default (questionBankByID e))), correct)]"
  unfolding evaluateResponse_def
  by (simp add: Let_def case_prod_beta updateQTable_frame updateState_frame)

lemma totalQuestions_evaluateResponse:
  "totalQuestions (evaluateResponse fl qid correct e) = totalQuestions e + 1"
  unfolding evaluateResponse_def
  by (simp add: Let_def case_prod_beta updateQTable_frame updateState_frame)

lemma bank_evaluateResponse:
  "ordered_map (questionBankByID e) \<Longrightarrow>
   questionBankByID (evaluateResponse fl qid correct e) =
     subscript qid Question_default (questionBankByID e)"
  unfolding evaluateResponse_def
  by (simp add: Let_def case_prod_beta updateQTable_frame updateState_frame subscript_idem
      ordered_subscript)

lemma bank_evaluateResponse_present:
  "ordered_map (questionBankByID e) \<Longrightarrow> map_of (questionBankByID e) qid = Some q \<Longrightarrow>
   questionBankByID (evaluateResponse fl qid correct e) = questionBankByID e"
  by (simp add: bank_evaluateResponse subscript_present)

lemma ordered_bank_evaluateResponse:
  "ordered_map (questionBankByID e) \<Longrightarrow>
   ordered_map (questionBankByID (evaluateResponse fl qid correct e))"
  by (simp add: bank_evaluateResponse ordered_subscript)

text \<open>
  Claim C9. Each \<open>evaluateResponse\<close> appends exactly one entry to the history: the skill
  state at the time of the answer (before the skill update), the question id, the
  description of the question, and the correctness flag; it adds one to
  \<open>totalQuestions\<close>. After any sequence of \<open>evaluateResponse\<close> calls on a freshly
  constructed engine the length of the history equals \<open>totalQuestions\<close>. The entries
  already there stay where they are, unchanged (the old history is a prefix of the
  new one), and \<open>getNextAction\<close> leaves the history and the counter alone.
\<close>

theorem history_grows_by_one:
  assumes "ordered_map (questionBankByID e)"
  shows "history (evaluateResponse fl qid correct e) =
           history e @ [(state e, qid, description (getQuestion qid e), correct)] \<and>
         totalQuestions (evaluateResponse fl qid correct e) = totalQuestions e + 1 \<and>
         int (length (history (evaluateResponses fl calls
                (AdaptiveQuiz_new questionBank qTable initialState)))) =
           totalQuestions (evaluateResponses fl calls
                (AdaptiveQuiz_new questionBank qTable initialState)) \<and>
         take (length (history e)) (history (evaluateResponses fl calls e)) = history e \<and>
         (\<forall>next e'. getNextAction fl rand_max r1 r2 r3 e = Inr (next, e') \<longrightarrow>
            history e' = history e \<and> totalQuestions e' = totalQuestions e)"
proof -
  have a: "at_key qid Question_default (subscript qid Question_default (questionBankByID e)) =
      getQuestion qid e"
    unfolding at_key_subscript [OF assms] by (simp add: at_key_def getQuestion_def)
  have len: "int (length (history (evaluateResponses fl cs x))) - totalQuestions (evaluateResponses fl cs x) =
      int (length (history x)) - totalQuestions x" for cs x
    by (induction cs arbitrary: x)
      (auto simp: history_evaluateResponse totalQuestions_evaluateResponse)
  have pre: "take (length (history x)) (history (evaluateResponses fl cs x)) = history x" for cs x
  proof (induction cs arbitrary: x)
    case Nil
    then show ?case by simp
  next
    case (Cons c cs)
    obtain q b where c: "c = (q, b)" by (cases c)
    have "take (length (history x)) (history (evaluateResponses fl (c # cs) x)) =
        take (length (history x)) (take (length (history (evaluateResponse fl q b x)))
          (history (evaluateResponses fl cs (evaluateResponse fl q b x))))"
      by (simp add: c history_evaluateResponse)
    also have "\<dots> = take (length (history x)) (history (evaluateResponse fl q b x))"
      by (simp only: Cons.IH)
    finally show ?case by (simp add: history_evaluateResponse)
  qed
  have sel: "\<forall>next e'. getNextAction fl rand_max r1 r2 r3 e = Inr (next, e') \<longrightarrow>
            history e' = history e \<and> totalQuestions e' = totalQuestions e"
    using getNextAction_frame [of fl rand_max r1 r2 r3 e] by blast
  show ?thesis
    using len [of calls "AdaptiveQuiz_new questionBank qTable initialState"] pre [of e calls] sel
    by (simp add: history_evaluateResponse a totalQuestions_evaluateResponse AdaptiveQuiz_new_def)
qed

text \<open>
  One correct answer to question 1 in the example session, and one selection.
\<close>

theorem history_grows_by_one_witness:
  "ordered_map (questionBankByID example_quiz) \<and>
   history (evaluateResponse (\<lambda>x. x) 1 True example_quiz) = [(beginner, 1, ''play'', True)] \<and>
   totalQuestions (evaluateResponse (\<lambda>x. x) 1 True example_quiz) = 1 \<and>
   getNextAction (\<lambda>x. x) 32767 32767 0 0 example_quiz =
     Inr (1, example_quiz\<lparr>q_table := [beginner \<mapsto> [(1, 0), (3, 0)]]\<rparr>) \<and>
   history (example_quiz\<lparr>q_table := [beginner \<mapsto> [(1, 0), (3, 0)]]\<rparr>) = []"
proof -
  have o: "ordered_map (questionBankByID example_quiz)"
    by (simp add: example_quiz_def AdaptiveQuiz_new_def ordered_example_bank)
  note t = history_grows_by_one [OF o, of "\<lambda>x. x" 1 True "[]" "[]" Map.empty beginner
      32767 32767 0 0]
  have g: "getQuestion 1 example_quiz = example_question 1 101 0"
    by (simp add: getQuestion_def example_defs)
  have h: "history (evaluateResponse (\<lambda>x. x) 1 True example_quiz) = [(beginner, 1, ''play'', True)]"
    using t by (simp add: g) (simp add: example_defs)
  have n: "totalQuestions (evaluateResponse (\<lambda>x. x) 1 True example_quiz) = 1"
    using t by (simp add: example_defs)
  have e: "history (example_quiz\<lparr>q_table := [beginner \<mapsto> [(1, 0), (3, 0)]]\<rparr>) = []"
    using t example_next by (simp add: example_defs)
  show ?thesis using o h n e example_next by simp
qed

text \<open>
  Claim C8 says that no engine operation changes the question bank, also when
  \<open>evaluateResponse\<close> is called with an id that is not in the bank. The code subscripts
  the bank with the id (line 352, and again in \<open>updateState\<close>, lines 221-222), and
  \<^verbatim>\<open>operator[]\<close> inserts a default question for a missing key: answering the unknown id
  7 in the example session leaves a fifth entry in the bank. (\<open>getQuestion\<close>, lines
  170-177, looks an id up with \<^verbatim>\<open>find\<close> and does not insert.)
\<close>

theorem absent_id_inserts_question:
  "questionBankByID example_quiz = example_bank \<and>
   questionBankByID (evaluateResponse fl 7 True example_quiz) =
     example_bank @ [(7, Question_default)] \<and>
   map_of (questionBankByID example_quiz) 7 = None"
proof -
  have o: "ordered_map (questionBankByID example_quiz)"
    by (simp add: example_quiz_def AdaptiveQuiz_new_def ordered_example_bank)
  show ?thesis
    unfolding bank_evaluateResponse [OF o]
    by (simp add: example_quiz_def AdaptiveQuiz_new_def example_bank_def)
qed

end
